theory Spec2Isabelle
  imports Complex_Main "HOL-Library.Word"
begin

section \<open>Wuerstchen demo application: a shallow embedding of \<^verbatim>\<open>wuerstchen_app.py\<close>\<close>

text \<open>
  The application drives a two-stage text-to-image pipeline and stores every image it
  produces under \<^verbatim>\<open>outputs/img_NNNN.png\<close>. The parts embedded here are the ones the
  application itself implements: the filename allocator \<^verbatim>\<open>get_next_filename\<close>, the
  seed resolver \<^verbatim>\<open>randomize_seed_fn\<close> and the orchestrator \<^verbatim>\<open>generate\<close>. The
  generative stages, the random module and the image encoder are libraries; they enter
  the model as parameters.
\<close>

subsection \<open>The output directory\<close>

text \<open>
  Pixel data is a list of byte values. A path on disk names a regular file with its
  content or a directory; \<^verbatim>\<open>os.path.exists\<close> is true for both.
\<close>

type_synonym image = "nat list"

datatype node = File image | Dir

type_synonym disk = "string \<rightharpoonup> node"

definition path_exists :: "disk \<Rightarrow> string \<Rightarrow> bool" where
  "path_exists fs p = (fs p \<noteq> None)"

subsection \<open>Formatting \<^verbatim>\<open>f"outputs/img_{index:04d}.png"\<close>\<close>

definition digit_char :: "nat \<Rightarrow> char" where
  "digit_char d = ''0123456789'' ! d"

text \<open>Python's \<^verbatim>\<open>str\<close> of a non-negative integer: its decimal digits, most significant first.\<close>

function str_nat :: "nat \<Rightarrow> string" where
  "str_nat n = (if n < 10 then [digit_char n] else str_nat (n div 10) @ [digit_char (n mod 10)])"
  by pat_completeness auto
termination
  by (relation "measure (\<lambda>n. n)") auto

declare str_nat.simps [simp del]

text \<open>
  The format specification \<^verbatim>\<open>04d\<close>: the decimal digits, padded on the left with zeros
  to a width of four; a longer number is not truncated.
\<close>

definition format_04d :: "nat \<Rightarrow> string" where
  "format_04d n = replicate (4 - length (str_nat n)) (CHR ''0'') @ str_nat n"

definition filename_of :: "nat \<Rightarrow> string" where
  "filename_of index = ''outputs/img_'' @ format_04d index @ ''.png''"

subsection \<open>The filename allocator\<close>

text \<open>
  \<^verbatim>\<open>
  def get_next_filename():
      index = 1
      while True:
          filename = f"outputs/img_{index:04d}.png"
          if not os.path.exists(filename):
              return filename
          index += 1
  \<close>
  The loop has no bound, so its model is a partial function: \<open>None\<close> is the run that
  never returns.
\<close>

partial_function (option) get_next_filename_loop :: "disk \<Rightarrow> nat \<Rightarrow> string option" where
  "get_next_filename_loop fs index =
     (if \<not> path_exists fs (filename_of index) then Some (filename_of index)
      else get_next_filename_loop fs (index + 1))"

definition get_next_filename :: "disk \<Rightarrow> string option" where
  "get_next_filename fs = get_next_filename_loop fs 1"

text \<open>
  Reading a digit string back, for the proof that distinct indices give distinct
  filenames.
\<close>

definition digit_val :: "char \<Rightarrow> nat" where
  "digit_val c = of_char c - 48"

definition digits_val :: "string \<Rightarrow> nat" where
  "digits_val s = foldl (\<lambda>a c. 10 * a + digit_val c) 0 s"

subsection \<open>The seed resolver\<close>

text \<open>\<^verbatim>\<open>MAX_SEED = np.iinfo(np.int32).max\<close>\<close>

definition MAX_SEED :: int where
  "MAX_SEED = 2 ^ 31 - 1"

text \<open>
  \<^verbatim>\<open>random.randint(a, b)\<close> reads and advances the state of the \<^verbatim>\<open>random\<close> module. It is
  a parameter of the model: a function from the bounds and the state \<open>'g\<close> of the module
  to the number drawn and the state after the draw. Its documented contract is that the
  number lies between the bounds, both included.
\<close>

type_synonym 'g randint = "int \<Rightarrow> int \<Rightarrow> 'g \<Rightarrow> int \<times> 'g"

definition randint_contract :: "'g randint \<Rightarrow> bool" where
  "randint_contract randint =
     (\<forall>a b g. a \<le> b \<longrightarrow> a \<le> fst (randint a b g) \<and> fst (randint a b g) \<le> b)"

text \<open>
  \<^verbatim>\<open>
  def randomize_seed_fn(seed: int, randomize_seed: bool) -> int:
      if randomize_seed:
          seed = random.randint(0, MAX_SEED)
      return seed
  \<close>
  The result is the seed returned together with the state of the \<^verbatim>\<open>random\<close> module after
  the call.
\<close>

definition randomize_seed_fn :: "'g randint \<Rightarrow> int \<Rightarrow> bool \<Rightarrow> 'g \<Rightarrow> int \<times> 'g" where
  "randomize_seed_fn randint s randomize_seed g =
     (if randomize_seed then randint 0 MAX_SEED g else (s, g))"

subsection \<open>The generative stages\<close>

text \<open>
  An exception is a value. \<open>NameError\<close> is what Python raises for the unbound global
  \<^verbatim>\<open>callback_prior\<close>, \<open>PipelineError\<close> stands for whatever a stage raises, \<open>OSError\<close> for
  a failed write.
\<close>

datatype error = NameError | PipelineError string | OSError

text \<open>
  \<^verbatim>\<open>torch.Generator().manual_seed(seed)\<close> is a fresh generator object whose state is fixed by
  the seed; every draw advances it. The object is mutable and is handed to both stages,
  so a stage takes the generator and returns it as it has left it.
\<close>

datatype generator = Generator (initial_seed: int) (consumed: nat)

definition manual_seed :: "int \<Rightarrow> generator" where
  "manual_seed s = Generator s 0"

type_synonym embeddings = "nat list"

type_synonym callback = "nat \<Rightarrow> nat \<Rightarrow> embeddings \<Rightarrow> image list"

text \<open>The keyword arguments of the two pipeline calls, in the order \<^verbatim>\<open>generate\<close> writes them.\<close>

record prior_call =
  p_prompt :: string
  p_height :: int
  p_width :: int
  p_num_inference_steps :: int
  p_negative_prompt :: string
  p_guidance_scale :: real
  p_num_images_per_prompt :: int
  p_callback :: callback

record decoder_call =
  d_image_embeddings :: embeddings
  d_prompt :: string
  d_num_inference_steps :: int
  d_guidance_scale :: real
  d_negative_prompt :: string
  d_output_type :: string

text \<open>
  The module-level objects \<^verbatim>\<open>prior_pipeline\<close>, \<^verbatim>\<open>decoder_pipeline\<close> and \<^verbatim>\<open>callback_prior\<close>.
  They are set up only when CUDA is available; without it the two pipelines are \<^verbatim>\<open>None\<close>
  and \<^verbatim>\<open>callback_prior\<close> is never bound. The module state is therefore an optional record.
  A stage is a function of its keyword arguments and of the generator: it returns its
  output and the generator as it has left it, or raises. It does not touch the output
  directory.
\<close>

record pipelines =
  prior_pipeline :: "prior_call \<Rightarrow> generator \<Rightarrow> error + embeddings \<times> generator"
  decoder_pipeline :: "decoder_call \<Rightarrow> generator \<Rightarrow> error + image list \<times> generator"
  callback_prior :: callback

subsection \<open>Saving the images\<close>

text \<open>
  \<^verbatim>\<open>img.save(filename)\<close> is the imaging library writing a file. Whether a write goes through
  (the directory is there, the disk is not full) is decided outside the program: the
  oracle \<open>writable\<close> says so for a disk state, a path and an image. A write that goes
  through puts the image at the path; a failed one raises and leaves the disk as it was.
\<close>

type_synonym save_oracle = "disk \<Rightarrow> string \<Rightarrow> image \<Rightarrow> bool"

definition save :: "save_oracle \<Rightarrow> image \<Rightarrow> string \<Rightarrow> disk \<Rightarrow> error + disk" where
  "save writable img filename fs =
     (if writable fs filename img then Inr (fs(filename \<mapsto> File img)) else Inl OSError)"

text \<open>
  \<^verbatim>\<open>
  for img in decoder_output:
      filename = get_next_filename()
      img.save(filename)
  \<close>
  The loop returns nothing; its model returns the disk it leaves and, as a record of its
  writes, the filenames it has used, in order. An exception ends the loop with the disk
  as the earlier iterations left it.
\<close>

fun save_images :: "save_oracle \<Rightarrow> image list \<Rightarrow> disk \<Rightarrow> ((error + string list) \<times> disk) option" where
  "save_images writable [] fs = Some (Inr [], fs)"
| "save_images writable (img # imgs) fs =
     (case get_next_filename fs of
        None \<Rightarrow> None
      | Some filename \<Rightarrow>
          (case save writable img filename fs of
             Inl e \<Rightarrow> Some (Inl e, fs)
           | Inr fs' \<Rightarrow>
               (case save_images writable imgs fs' of
                  None \<Rightarrow> None
                | Some (Inl e, fs'') \<Rightarrow> Some (Inl e, fs'')
                | Some (Inr names, fs'') \<Rightarrow> Some (Inr (filename # names), fs''))))"

subsection \<open>The orchestrator\<close>

text \<open>The parameters of \<^verbatim>\<open>generate\<close>, in the order of its signature.\<close>

record request =
  prompt :: string
  negative_prompt :: string
  seed :: int
  width :: int
  height :: int
  prior_num_inference_steps :: int
  prior_guidance_scale :: real
  decoder_num_inference_steps :: int
  decoder_guidance_scale :: real
  num_images_per_prompt :: int

text \<open>
  \<^verbatim>\<open>
  generator = torch.Generator().manual_seed(seed)
  prior_output = prior_pipeline(prompt=prompt, height=height, width=width,
      num_inference_steps=prior_num_inference_steps, negative_prompt=negative_prompt,
      guidance_scale=prior_guidance_scale, num_images_per_prompt=num_images_per_prompt,
      generator=generator, callback=callback_prior)
  decoder_output = decoder_pipeline(image_embeddings=prior_output.image_embeddings,
      prompt=prompt, num_inference_steps=decoder_num_inference_steps,
      guidance_scale=decoder_guidance_scale, negative_prompt=negative_prompt,
      generator=generator, output_type="pil").images
  for img in decoder_output:
      filename = get_next_filename()
      img.save(filename)
  yield decoder_output
  \<close>
  \<open>prior_call_of\<close> and \<open>decoder_call_of\<close> are the keyword arguments of the two calls. The
  result is \<open>None\<close> when the call never returns; otherwise it is the exception raised
  or the batch yielded, together with the disk the call leaves. There is no \<^verbatim>\<open>try\<close> in
  the function: the first exception ends it.
\<close>

definition prior_call_of :: "pipelines \<Rightarrow> request \<Rightarrow> prior_call" where
  "prior_call_of pl r =
     \<lparr>p_prompt = prompt r, p_height = height r, p_width = width r,
      p_num_inference_steps = prior_num_inference_steps r,
      p_negative_prompt = negative_prompt r,
      p_guidance_scale = prior_guidance_scale r,
      p_num_images_per_prompt = num_images_per_prompt r,
      p_callback = callback_prior pl\<rparr>"

definition decoder_call_of :: "request \<Rightarrow> embeddings \<Rightarrow> decoder_call" where
  "decoder_call_of r image_embeddings =
     \<lparr>d_image_embeddings = image_embeddings, d_prompt = prompt r,
      d_num_inference_steps = decoder_num_inference_steps r,
      d_guidance_scale = decoder_guidance_scale r,
      d_negative_prompt = negative_prompt r,
      d_output_type = ''pil''\<rparr>"

definition generate ::
  "save_oracle \<Rightarrow> pipelines option \<Rightarrow> request \<Rightarrow> disk \<Rightarrow> ((error + image list) \<times> disk) option" where
  "generate writable env r fs =
     (let generator = manual_seed (seed r) in
      case env of
        None \<Rightarrow> Some (Inl NameError, fs)
      | Some pl \<Rightarrow>
          (case prior_pipeline pl (prior_call_of pl r) generator of
             Inl e \<Rightarrow> Some (Inl e, fs)
           | Inr (image_embeddings, generator') \<Rightarrow>
               (case decoder_pipeline pl (decoder_call_of r image_embeddings) generator' of
                  Inl e \<Rightarrow> Some (Inl e, fs)
                | Inr (decoder_output, generator'') \<Rightarrow>
                    (case save_images writable decoder_output fs of
                       None \<Rightarrow> None
                     | Some (Inl e, fs') \<Rightarrow> Some (Inl e, fs')
                     | Some (Inr names, fs') \<Rightarrow> Some (Inr decoder_output, fs')))))"

text \<open>An output directory with nothing in it: no path below \<^verbatim>\<open>outputs/\<close> is on the disk.\<close>

definition outputs_empty :: "disk \<Rightarrow> bool" where
  "outputs_empty fs = (\<forall>name. fs (''outputs/'' @ name) = None)"

subsection \<open>Stub stages for worked examples\<close>

text \<open>
  Stand-ins for the two pipelines, for evaluating \<open>generate\<close> on concrete inputs. The stub
  prior returns one embedding per requested image, computed from the seed of the generator
  it is given, and advances the generator; the stub decoder turns every embedding into an
  image that depends on the embedding, on the state of the generator it is given and on
  the position in the batch. \<open>failing_stage\<close> raises; \<open>second_write_fails\<close> is a disk that
  refuses the write of \<^verbatim>\<open>outputs/img_0002.png\<close>.
\<close>

definition stub_prior :: "prior_call \<Rightarrow> generator \<Rightarrow> error + embeddings \<times> generator" where
  "stub_prior c g =
     Inr (replicate (nat (p_num_images_per_prompt c)) (nat \<bar>initial_seed g\<bar>),
          Generator (initial_seed g) (consumed g + 1))"

definition stub_decoder :: "decoder_call \<Rightarrow> generator \<Rightarrow> error + image list \<times> generator" where
  "stub_decoder c g =
     Inr (map (\<lambda>(k, e). [e, consumed g, k])
            (zip [0..<length (d_image_embeddings c)] (d_image_embeddings c)),
          Generator (initial_seed g) (consumed g + 1))"

definition stub_pipelines :: pipelines where
  "stub_pipelines =
     \<lparr>prior_pipeline = stub_prior, decoder_pipeline = stub_decoder,
      callback_prior = (\<lambda>i t latents. [])\<rparr>"

definition example_request :: request where
  "example_request =
     \<lparr>prompt = ''An astronaut riding a green horse'', negative_prompt = '''', seed = 42,
      width = 1024, height = 1024, prior_num_inference_steps = 60, prior_guidance_scale = 4,
      decoder_num_inference_steps = 12, decoder_guidance_scale = 0,
      num_images_per_prompt = 2\<rparr>"

definition failing_stage :: "'c \<Rightarrow> generator \<Rightarrow> error + 'a \<times> generator" where
  "failing_stage c g = Inl (PipelineError ''CUDA out of memory'')"

definition second_write_fails :: save_oracle where
  "second_write_fails fs p img = (p \<noteq> ''outputs/img_0002.png'')"

section \<open>Properties\<close>

subsection \<open>Filenames\<close>

lemma replicate_small:
  "replicate 3 x = [x, x, x]" "replicate 2 x = [x, x]" "replicate 1 x = [x]"
  by (simp_all add: numeral_3_eq_3 numeral_2_eq_2)

lemma filename_of_1:
  "filename_of 1 = ''outputs/img_0001.png''" "filename_of (Suc 0) = ''outputs/img_0001.png''"
  by (simp_all add: filename_of_def format_04d_def digit_char_def str_nat.simps replicate_small)

lemma filename_of_2: "filename_of 2 = ''outputs/img_0002.png''"
  by (simp add: filename_of_def format_04d_def digit_char_def str_nat.simps replicate_small)

lemma filename_of_3: "filename_of 3 = ''outputs/img_0003.png''"
  by (simp add: filename_of_def format_04d_def digit_char_def str_nat.simps replicate_small)


text \<open>Distinct indices give distinct filenames: the digits read back give the index.\<close>

lemma digit_val_digit_char: "d < 10 \<Longrightarrow> digit_val (digit_char d) = d"
proof -
  assume "d < 10"
  then have "d \<in> {0, 1, 2, 3, 4, 5, 6, 7, 8, 9}" by auto
  then show ?thesis
    by (auto simp: digit_val_def digit_char_def str_nat.simps replicate_small)
qed

lemma digits_val_snoc: "digits_val (s @ [c]) = 10 * digits_val s + digit_val c"
  by (simp add: digits_val_def)

lemma digits_val_str_nat: "digits_val (str_nat n) = n"
proof (induction n rule: str_nat.induct)
  case (1 n)
  show ?case
  proof (cases "n < 10")
    case True
    then show ?thesis by (subst str_nat.simps) (simp add: digits_val_def digit_val_digit_char)
  next
    case False
    then have "digits_val (str_nat n) = 10 * digits_val (str_nat (n div 10)) + digit_val (digit_char (n mod 10))"
      by (subst str_nat.simps) (simp add: digits_val_snoc)
    also have "\<dots> = 10 * (n div 10) + n mod 10"
      using 1 False by (simp add: digit_val_digit_char)
    finally show ?thesis by simp
  qed
qed

lemma digits_val_zeros: "digits_val (replicate k (CHR ''0'') @ s) = digits_val s"
proof (induction k)
  case 0 then show ?case by simp
next
  case (Suc k)
  have "foldl (\<lambda>a c. 10 * a + digit_val c) 0 (CHR ''0'' # t) = foldl (\<lambda>a c. 10 * a + digit_val c) 0 t" for t
    by (simp add: digit_val_def)
  then show ?case using Suc by (simp add: digits_val_def)
qed

lemma digits_val_format_04d: "digits_val (format_04d n) = n"
  by (simp add: format_04d_def digits_val_zeros digits_val_str_nat)

lemma filename_of_inj: "filename_of i = filename_of j \<Longrightarrow> i = j"
proof -
  assume "filename_of i = filename_of j"
  then have "format_04d i = format_04d j" by (simp add: filename_of_def)
  then have "digits_val (format_04d i) = digits_val (format_04d j)" by simp
  then show ?thesis by (simp add: digits_val_format_04d)
qed

subsection \<open>The allocator returns the first free index\<close>

lemma loop_first_free:
  "\<lbrakk>i \<le> k; \<forall>j. i \<le> j \<and> j < k \<longrightarrow> path_exists fs (filename_of j); \<not> path_exists fs (filename_of k)\<rbrakk>
   \<Longrightarrow> get_next_filename_loop fs i = Some (filename_of k)"
proof (induction "k - i" arbitrary: i)
  case 0
  then have "i = k" by simp
  with 0 show ?case by (subst get_next_filename_loop.simps) simp
next
  case (Suc d)
  then have lt: "i < k" by simp
  with Suc.prems have ex: "path_exists fs (filename_of i)" by simp
  have "get_next_filename_loop fs (i + 1) = Some (filename_of k)"
    using Suc.hyps(1)[of "i + 1"] Suc.hyps(2) Suc.prems lt by simp
  with ex show ?case by (subst get_next_filename_loop.simps) simp
qed

lemma loop_Some_free:
  assumes "get_next_filename_loop fs i = Some p"
  shows "\<exists>k\<ge>i. p = filename_of k \<and> \<not> path_exists fs p \<and> (\<forall>j. i \<le> j \<and> j < k \<longrightarrow> path_exists fs (filename_of j))"
proof (rule get_next_filename_loop.raw_induct
    [where P = "\<lambda>fs i p. \<exists>k\<ge>i. p = filename_of k \<and> \<not> path_exists fs p \<and> (\<forall>j. i \<le> j \<and> j < k \<longrightarrow> path_exists fs (filename_of j))", OF _ assms])
  fix loop :: "disk \<Rightarrow> nat \<Rightarrow> string option" and fs i p
  assume IH: "\<And>fs i p. loop fs i = Some p \<Longrightarrow> \<exists>k\<ge>i. p = filename_of k \<and> \<not> path_exists fs p \<and> (\<forall>j. i \<le> j \<and> j < k \<longrightarrow> path_exists fs (filename_of j))"
    and step: "(if \<not> path_exists fs (filename_of i) then Some (filename_of i) else loop fs (i + 1)) = Some p"
  show "\<exists>k\<ge>i. p = filename_of k \<and> \<not> path_exists fs p \<and> (\<forall>j. i \<le> j \<and> j < k \<longrightarrow> path_exists fs (filename_of j))"
  proof (cases "path_exists fs (filename_of i)")
    case False
    with step have "p = filename_of i" by simp
    with False show ?thesis by (intro exI[of _ i]) auto
  next
    case True
    with step have "loop fs (i + 1) = Some p" by simp
    from IH[OF this] obtain k where k: "k \<ge> i + 1" "p = filename_of k" "\<not> path_exists fs p"
      "\<forall>j. i + 1 \<le> j \<and> j < k \<longrightarrow> path_exists fs (filename_of j)" by blast
    have "\<forall>j. i \<le> j \<and> j < k \<longrightarrow> path_exists fs (filename_of j)"
    proof (intro allI impI)
      fix j assume "i \<le> j \<and> j < k"
      then show "path_exists fs (filename_of j)" using True k(4) by (cases "j = i") auto
    qed
    with k show ?thesis by (intro exI[of _ k]) auto
  qed
qed


lemma get_next_filename_lowest_free:
  "\<lbrakk>1 \<le> k; \<forall>j. 1 \<le> j \<and> j < k \<longrightarrow> path_exists fs (filename_of j); \<not> path_exists fs (filename_of k)\<rbrakk>
   \<Longrightarrow> get_next_filename fs = Some (filename_of k)"
  unfolding get_next_filename_def by (rule loop_first_free)

lemma get_next_filename_Some:
  assumes "get_next_filename fs = Some p"
  shows "\<exists>k\<ge>1. p = filename_of k \<and> \<not> path_exists fs p \<and> (\<forall>j. 1 \<le> j \<and> j < k \<longrightarrow> path_exists fs (filename_of j))"
  using assms unfolding get_next_filename_def by (rule loop_Some_free)

lemma get_next_filename_returns:
  assumes "1 \<le> i" and "\<not> path_exists fs (filename_of i)"
  shows "\<exists>p. get_next_filename fs = Some p"
proof -
  define k where "k = (LEAST k. 1 \<le> k \<and> \<not> path_exists fs (filename_of k))"
  have k: "1 \<le> k \<and> \<not> path_exists fs (filename_of k)"
    unfolding k_def by (rule LeastI[of _ i]) (use assms in simp)
  have "\<forall>j. 1 \<le> j \<and> j < k \<longrightarrow> path_exists fs (filename_of j)"
  proof (intro allI impI)
    fix j assume j: "1 \<le> j \<and> j < k"
    show "path_exists fs (filename_of j)"
    proof (rule ccontr)
      assume "\<not> path_exists fs (filename_of j)"
      with j have "k \<le> j" unfolding k_def by (intro Least_le) simp
      with j show False by simp
    qed
  qed
  with k have "get_next_filename fs = Some (filename_of k)"
    by (intro get_next_filename_lowest_free) auto
  then show ?thesis by blast
qed

lemma finite_disk_has_free_index:
  assumes "finite (dom fs)"
  shows "\<exists>i\<ge>1. \<not> path_exists fs (filename_of i)"
proof (rule ccontr)
  assume "\<not> (\<exists>i\<ge>1. \<not> path_exists fs (filename_of i))"
  then have "filename_of ` {1..} \<subseteq> dom fs"
    by (auto simp: path_exists_def)
  with assms have "finite (filename_of ` {1..})" by (rule rev_finite_subset)
  moreover have "inj_on filename_of {1..}"
    by (rule inj_onI) (rule filename_of_inj)
  ultimately have "finite ({1..} :: nat set)" by (rule finite_imageD)
  then show False by (simp add: infinite_Ici)
qed

text \<open>
  C2. When \<^verbatim>\<open>outputs/img_0001.png\<close> and \<^verbatim>\<open>outputs/img_0003.png\<close> are on the disk and
  \<^verbatim>\<open>outputs/img_0002.png\<close> is not, \<open>get_next_filename\<close> returns \<^verbatim>\<open>outputs/img_0002.png\<close>: the
  allocator fills the first gap and does not append after the highest index.
\<close>
theorem get_next_filename_fills_first_gap:
  assumes "path_exists fs ''outputs/img_0001.png''"
    and "\<not> path_exists fs ''outputs/img_0002.png''"
    and "path_exists fs ''outputs/img_0003.png''"
  shows "get_next_filename fs = Some ''outputs/img_0002.png''"
proof -
  have "\<forall>j. 1 \<le> j \<and> j < 2 \<longrightarrow> path_exists fs (filename_of j)"
  proof (intro allI impI)
    fix j :: nat assume "1 \<le> j \<and> j < 2"
    then have "j = 1" by simp
    with assms(1) show "path_exists fs (filename_of j)" by (simp add: filename_of_1)
  qed
  moreover have "\<not> path_exists fs (filename_of 2)"
    using assms(2) by (simp add: filename_of_2)
  ultimately have "get_next_filename fs = Some (filename_of 2)"
    by (intro get_next_filename_lowest_free) auto
  then show ?thesis by (simp add: filename_of_2)
qed

theorem get_next_filename_fills_first_gap_witness:
  "get_next_filename [''outputs/img_0001.png'' \<mapsto> File [1], ''outputs/img_0003.png'' \<mapsto> File [3]]
     = Some ''outputs/img_0002.png''"
  by (rule get_next_filename_fills_first_gap) (simp_all add: path_exists_def)

text \<open>
  C6. Starting from an empty output directory, three calls of \<open>get_next_filename\<close>, each
  followed by the caller writing something at the path returned, return
  \<^verbatim>\<open>outputs/img_0001.png\<close>, \<^verbatim>\<open>outputs/img_0002.png\<close> and \<^verbatim>\<open>outputs/img_0003.png\<close>, in that order.
\<close>
theorem first_three_filenames:
  assumes "outputs_empty fs"
  shows "get_next_filename fs = Some ''outputs/img_0001.png''
       \<and> get_next_filename (fs(''outputs/img_0001.png'' \<mapsto> a)) = Some ''outputs/img_0002.png''
       \<and> get_next_filename (fs(''outputs/img_0001.png'' \<mapsto> a, ''outputs/img_0002.png'' \<mapsto> b))
           = Some ''outputs/img_0003.png''"
proof -
  have free: "\<not> path_exists fs (filename_of k)" for k
    using assms by (simp add: outputs_empty_def path_exists_def filename_of_def)
  have "get_next_filename fs = Some (filename_of 1)"
    by (intro get_next_filename_lowest_free) (auto simp: free)
  moreover have "get_next_filename (fs(filename_of 1 \<mapsto> a)) = Some (filename_of 2)"
  proof (intro get_next_filename_lowest_free)
    show "\<forall>j. 1 \<le> j \<and> j < 2 \<longrightarrow> path_exists (fs(filename_of 1 \<mapsto> a)) (filename_of j)"
    proof (intro allI impI)
      fix j :: nat assume "1 \<le> j \<and> j < 2"
      then have "j = 1" by simp
      then show "path_exists (fs(filename_of 1 \<mapsto> a)) (filename_of j)" by (simp add: path_exists_def)
    qed
    have "filename_of 2 \<noteq> filename_of 1" using filename_of_inj[of 2 1] by auto
    then show "\<not> path_exists (fs(filename_of 1 \<mapsto> a)) (filename_of 2)"
      using free[of 2] by (simp add: path_exists_def)
  qed simp
  moreover have "get_next_filename (fs(filename_of 1 \<mapsto> a, filename_of 2 \<mapsto> b)) = Some (filename_of 3)"
  proof (intro get_next_filename_lowest_free)
    show "\<forall>j. 1 \<le> j \<and> j < 3 \<longrightarrow> path_exists (fs(filename_of 1 \<mapsto> a, filename_of 2 \<mapsto> b)) (filename_of j)"
    proof (intro allI impI)
      fix j :: nat assume "1 \<le> j \<and> j < 3"
      then have "j = 1 \<or> j = 2" by auto
      then show "path_exists (fs(filename_of 1 \<mapsto> a, filename_of 2 \<mapsto> b)) (filename_of j)"
        by (auto simp: path_exists_def)
    qed
    have "filename_of 3 \<noteq> filename_of 1" "filename_of 3 \<noteq> filename_of 2"
      using filename_of_inj[of 3 1] filename_of_inj[of 3 2] by auto
    then show "\<not> path_exists (fs(filename_of 1 \<mapsto> a, filename_of 2 \<mapsto> b)) (filename_of 3)"
      using free[of 3] by (simp add: path_exists_def)
  qed simp
  ultimately show ?thesis by (simp add: filename_of_1 filename_of_2 filename_of_3)
qed

theorem first_three_filenames_witness:
  "outputs_empty [''style.css'' \<mapsto> File [7]]
   \<and> get_next_filename [''style.css'' \<mapsto> File [7]] = Some ''outputs/img_0001.png''
   \<and> get_next_filename [''style.css'' \<mapsto> File [7], ''outputs/img_0001.png'' \<mapsto> File [1]]
       = Some ''outputs/img_0002.png''
   \<and> get_next_filename [''style.css'' \<mapsto> File [7], ''outputs/img_0001.png'' \<mapsto> File [1],
                         ''outputs/img_0002.png'' \<mapsto> File [2]]
       = Some ''outputs/img_0003.png''"
proof -
  have e: "outputs_empty [''style.css'' \<mapsto> File [7]]"
    by (simp add: outputs_empty_def)
  show ?thesis
    using e first_three_filenames [OF e, of "File [1]" "File [2]"] by simp
qed

text \<open>
  C10. \<open>get_next_filename\<close> returns whenever some index from 1 on has no file under its
  name, in particular on every disk with finitely many entries; when every index has a
  file, the scan never returns.
\<close>
theorem get_next_filename_terminates:
  "((\<exists>i\<ge>1. \<not> path_exists fs (filename_of i)) \<longrightarrow> (\<exists>p. get_next_filename fs = Some p))
   \<and> (finite (dom fs) \<longrightarrow> (\<exists>p. get_next_filename fs = Some p))
   \<and> ((\<forall>i\<ge>1. path_exists fs (filename_of i)) \<longrightarrow> get_next_filename fs = None)"
proof (intro conjI impI)
  assume "\<exists>i\<ge>1. \<not> path_exists fs (filename_of i)"
  then show "\<exists>p. get_next_filename fs = Some p"
    using get_next_filename_returns by blast
next
  assume "finite (dom fs)"
  then have "\<exists>i\<ge>1. \<not> path_exists fs (filename_of i)" by (rule finite_disk_has_free_index)
  then show "\<exists>p. get_next_filename fs = Some p"
    using get_next_filename_returns by blast
next
  assume all: "\<forall>i\<ge>1. path_exists fs (filename_of i)"
  show "get_next_filename fs = None"
  proof (cases "get_next_filename fs")
    case None then show ?thesis .
  next
    case (Some p)
    from get_next_filename_Some[OF this] all show ?thesis by blast
  qed
qed

theorem get_next_filename_terminates_witness:
  "finite (dom [''outputs/img_0001.png'' \<mapsto> Dir])
   \<and> (\<exists>p. get_next_filename [''outputs/img_0001.png'' \<mapsto> Dir] = Some p)
   \<and> get_next_filename (\<lambda>p. Some Dir) = None"
  using get_next_filename_terminates [of "[''outputs/img_0001.png'' \<mapsto> Dir]"]
    get_next_filename_terminates [of "\<lambda>p. Some Dir"]
  by (simp add: path_exists_def)

subsection \<open>The seed resolver\<close>

text \<open>
  C4. With \<^verbatim>\<open>randomize_seed\<close> false, \<open>randomize_seed_fn\<close> returns the seed it was given, for
  every seed, and leaves the state of the \<^verbatim>\<open>random\<close> module as it was.
\<close>
theorem randomize_seed_fn_identity:
  "randomize_seed_fn randint s False g = (s, g)"
  by (simp add: randomize_seed_fn_def)

text \<open>\<open>MAX_SEED\<close> is the largest value of a signed 32-bit integer.\<close>

lemma MAX_SEED_int32:
  "MAX_SEED = 2147483647" "sint (w :: 32 word) \<le> MAX_SEED" "sint (2147483647 :: 32 word) = MAX_SEED"
proof -
  show "MAX_SEED = 2147483647" by (simp add: MAX_SEED_def)
  have "sint w < 2 ^ (LENGTH(32) - 1)" by (rule sint_lt)
  then show "sint w \<le> MAX_SEED" by (simp add: MAX_SEED_def)
  show "sint (2147483647 :: 32 word) = MAX_SEED" by (simp add: MAX_SEED_def)
qed

text \<open>
  C5. With \<^verbatim>\<open>randomize_seed\<close> true, the seed returned lies between 0 and \<open>MAX_SEED\<close>, both
  included, whatever seed was given; \<open>MAX_SEED\<close> is 2147483647. The random module is
  taken with its contract: \<^verbatim>\<open>randint(a, b)\<close> returns a number between \<open>a\<close> and \<open>b\<close>.
\<close>
theorem randomize_seed_fn_in_range:
  assumes "randint_contract randint"
  shows "0 \<le> fst (randomize_seed_fn randint s True g)
       \<and> fst (randomize_seed_fn randint s True g) \<le> MAX_SEED
       \<and> MAX_SEED = 2147483647
       \<and> (\<forall>x :: 32 word. sint x \<le> MAX_SEED) \<and> (\<exists>x :: 32 word. sint x = MAX_SEED)"
proof -
  have "(0::int) \<le> MAX_SEED" by (simp add: MAX_SEED_def)
  with assms have "0 \<le> fst (randint 0 MAX_SEED g) \<and> fst (randint 0 MAX_SEED g) \<le> MAX_SEED"
    unfolding randint_contract_def by blast
  then have "0 \<le> fst (randomize_seed_fn randint s True g)
       \<and> fst (randomize_seed_fn randint s True g) \<le> MAX_SEED"
    by (simp add: randomize_seed_fn_def)
  moreover have "\<exists>x :: 32 word. sint x = MAX_SEED"
    using MAX_SEED_int32(3) by blast
  ultimately show ?thesis using MAX_SEED_int32(1,2) by blast
qed

theorem randomize_seed_fn_in_range_witness:
  "randint_contract (\<lambda>a b (g::nat). (a + int g mod (b - a + 1), Suc g))
   \<and> fst (randomize_seed_fn (\<lambda>a b (g::nat). (a + int g mod (b - a + 1), Suc g)) (-5) True 4294967303) = 7
   \<and> (0::int) \<le> 7 \<and> 7 \<le> MAX_SEED"
proof -
  have c: "randint_contract (\<lambda>a b (g::nat). (a + int g mod (b - a + 1), Suc g))"
    unfolding randint_contract_def
  proof (intro allI impI)
    fix a b :: int and g :: nat
    assume "a \<le> b"
    then have pos: "0 < b - a + 1" by simp
    have "0 \<le> int g mod (b - a + 1)" using pos by (rule pos_mod_sign)
    moreover have "int g mod (b - a + 1) < b - a + 1" using pos by (rule pos_mod_bound)
    ultimately show "a \<le> fst (a + int g mod (b - a + 1), Suc g) \<and> fst (a + int g mod (b - a + 1), Suc g) \<le> b"
      by simp
  qed
  have v: "fst (randomize_seed_fn (\<lambda>a b (g::nat). (a + int g mod (b - a + 1), Suc g)) (-5) True 4294967303) = 7"
    by (simp add: randomize_seed_fn_def MAX_SEED_def)
  from randomize_seed_fn_in_range [OF c, of "-5" 4294967303] have "(7::int) \<le> MAX_SEED"
    unfolding v by blast
  with c v show ?thesis by simp
qed

subsection \<open>The save loop\<close>

lemma save_images_Cons_Inr:
  assumes "save_images w (img # imgs) fs = Some (Inr names, fs')"
  shows "\<exists>f names'. get_next_filename fs = Some f \<and> w fs f img \<and> names = f # names'
           \<and> save_images w imgs (fs(f \<mapsto> File img)) = Some (Inr names', fs')"
  using assms by (auto simp: save_def split: option.splits sum.splits if_splits prod.splits)

lemma save_images_Cons_Some:
  assumes "save_images w (img # imgs) fs = Some (res, fs')"
  shows "\<exists>f. get_next_filename fs = Some f \<and>
           ((\<not> w fs f img \<and> res = Inl OSError \<and> fs' = fs) \<or>
            (w fs f img \<and> (\<exists>res'. save_images w imgs (fs(f \<mapsto> File img)) = Some (res', fs'))))"
  using assms by (auto simp: save_def split: option.splits sum.splits if_splits prod.splits)

lemma save_images_Cons_step:
  "get_next_filename fs = Some f \<Longrightarrow> w fs f img \<Longrightarrow>
   save_images w (img # imgs) fs =
     (case save_images w imgs (fs(f \<mapsto> File img)) of
        None \<Rightarrow> None
      | Some (Inl e, fs'') \<Rightarrow> Some (Inl e, fs'')
      | Some (Inr names, fs'') \<Rightarrow> Some (Inr (f # names), fs''))"
  by (simp add: save_def)

lemma save_images_frame:
  "save_images w imgs fs = Some (res, fs') \<Longrightarrow> path_exists fs q \<Longrightarrow> fs' q = fs q"
proof (induction imgs arbitrary: fs res)
  case Nil
  then show ?case by simp
next
  case (Cons img imgs)
  from save_images_Cons_Some[OF Cons.prems(1)] obtain f where f: "get_next_filename fs = Some f"
    and alt: "(\<not> w fs f img \<and> res = Inl OSError \<and> fs' = fs) \<or>
            (w fs f img \<and> (\<exists>res'. save_images w imgs (fs(f \<mapsto> File img)) = Some (res', fs')))"
    by blast
  from get_next_filename_Some[OF f] have free: "\<not> path_exists fs f" by blast
  with Cons.prems(2) have ne: "q \<noteq> f" by auto
  from alt show ?case
  proof
    assume "\<not> w fs f img \<and> res = Inl OSError \<and> fs' = fs"
    then show ?thesis by simp
  next
    assume "w fs f img \<and> (\<exists>res'. save_images w imgs (fs(f \<mapsto> File img)) = Some (res', fs'))"
    then obtain res' where r: "save_images w imgs (fs(f \<mapsto> File img)) = Some (res', fs')" by blast
    have "path_exists (fs(f \<mapsto> File img)) q" using Cons.prems(2) by (simp add: path_exists_def)
    from Cons.IH[OF r this] ne show ?thesis by simp
  qed
qed

lemma save_images_length:
  "save_images w imgs fs = Some (Inr names, fs') \<Longrightarrow> length names = length imgs"
proof (induction imgs arbitrary: fs names)
  case Nil
  then show ?case by simp
next
  case (Cons img imgs)
  from save_images_Cons_Inr[OF Cons.prems] obtain f names' where
    "names = f # names'" "save_images w imgs (fs(f \<mapsto> File img)) = Some (Inr names', fs')" by blast
  with Cons.IH show ?case by simp
qed

lemma save_images_fresh:
  "save_images w imgs fs = Some (Inr names, fs') \<Longrightarrow> n \<in> set names \<Longrightarrow> \<not> path_exists fs n"
proof (induction imgs arbitrary: fs names)
  case Nil
  then show ?case by simp
next
  case (Cons img imgs)
  from save_images_Cons_Inr[OF Cons.prems(1)] obtain f names' where f: "get_next_filename fs = Some f"
    and names: "names = f # names'"
    and rest: "save_images w imgs (fs(f \<mapsto> File img)) = Some (Inr names', fs')" by blast
  from get_next_filename_Some[OF f] have free: "\<not> path_exists fs f" by blast
  show ?case
  proof (cases "n = f")
    case True
    with free show ?thesis by simp
  next
    case False
    with Cons.prems(2) names have "n \<in> set names'" by simp
    from Cons.IH[OF rest this] False show ?thesis by (simp add: path_exists_def)
  qed
qed

lemma save_images_distinct:
  "save_images w imgs fs = Some (Inr names, fs') \<Longrightarrow> distinct names"
proof (induction imgs arbitrary: fs names)
  case Nil
  then show ?case by simp
next
  case (Cons img imgs)
  from save_images_Cons_Inr[OF Cons.prems(1)] obtain f names' where
    names: "names = f # names'"
    and rest: "save_images w imgs (fs(f \<mapsto> File img)) = Some (Inr names', fs')" by blast
  have "f \<notin> set names'"
  proof
    assume "f \<in> set names'"
    from save_images_fresh[OF rest this] show False by (simp add: path_exists_def)
  qed
  with Cons.IH[OF rest] names show ?case by simp
qed

lemma save_images_stored:
  "save_images w imgs fs = Some (Inr names, fs') \<Longrightarrow> i < length imgs
   \<Longrightarrow> fs' (names ! i) = Some (File (imgs ! i))"
proof (induction imgs arbitrary: fs names i)
  case Nil
  then show ?case by simp
next
  case (Cons img imgs)
  from save_images_Cons_Inr[OF Cons.prems(1)] obtain f names' where
    names: "names = f # names'"
    and rest: "save_images w imgs (fs(f \<mapsto> File img)) = Some (Inr names', fs')" by blast
  show ?case
  proof (cases i)
    case 0
    have "path_exists (fs(f \<mapsto> File img)) f" by (simp add: path_exists_def)
    from save_images_frame[OF rest this] names 0 show ?thesis by simp
  next
    case (Suc j)
    with Cons.prems(2) have "j < length imgs" by simp
    from Cons.IH[OF rest this] names Suc show ?thesis by simp
  qed
qed

lemma save_images_prefix:
  "save_images w imgs fs = Some (Inr names, fs') \<Longrightarrow> i \<le> length imgs
   \<Longrightarrow> \<exists>fs\<^sub>i. save_images w (take i imgs) fs = Some (Inr (take i names), fs\<^sub>i)
            \<and> save_images w (drop i imgs) fs\<^sub>i = Some (Inr (drop i names), fs')"
proof (induction imgs arbitrary: fs names i)
  case Nil
  then show ?case by simp
next
  case (Cons img imgs)
  from save_images_Cons_Inr[OF Cons.prems(1)] obtain f names' where f: "get_next_filename fs = Some f"
    and ok: "w fs f img" and names: "names = f # names'"
    and rest: "save_images w imgs (fs(f \<mapsto> File img)) = Some (Inr names', fs')" by blast
  show ?case
  proof (cases i)
    case 0
    with Cons.prems(1) show ?thesis by simp
  next
    case (Suc j)
    with Cons.prems(2) have "j \<le> length imgs" by simp
    from Cons.IH[OF rest this] obtain fsj where
      a: "save_images w (take j imgs) (fs(f \<mapsto> File img)) = Some (Inr (take j names'), fsj)"
      and b: "save_images w (drop j imgs) fsj = Some (Inr (drop j names'), fs')" by blast
    have "save_images w (img # take j imgs) fs = Some (Inr (f # take j names'), fsj)"
      unfolding save_images_Cons_step[where w=w and img=img, OF f ok] a by simp
    then have "save_images w (take i (img # imgs)) fs = Some (Inr (take i names), fsj)"
      using names Suc by simp
    moreover have "save_images w (drop i (img # imgs)) fsj = Some (Inr (drop i names), fs')"
      using b names Suc by simp
    ultimately show ?thesis by blast
  qed
qed

lemma save_images_allocated:
  assumes "save_images w imgs fs = Some (Inr names, fs')" and "i < length imgs"
  shows "\<exists>fs\<^sub>i. save_images w (take i imgs) fs = Some (Inr (take i names), fs\<^sub>i)
            \<and> get_next_filename fs\<^sub>i = Some (names ! i)"
proof -
  from save_images_prefix[OF assms(1), of i] assms(2) obtain fsi where
    a: "save_images w (take i imgs) fs = Some (Inr (take i names), fsi)"
    and b: "save_images w (drop i imgs) fsi = Some (Inr (drop i names), fs')" by auto
  have len: "length names = length imgs" using assms(1) by (rule save_images_length)
  have "drop i imgs = imgs ! i # drop (Suc i) imgs" using assms(2) by (simp add: Cons_nth_drop_Suc)
  with b have "save_images w (imgs ! i # drop (Suc i) imgs) fsi = Some (Inr (drop i names), fs')" by simp
  from save_images_Cons_Inr[OF this] obtain f names' where
    f: "get_next_filename fsi = Some f" and d: "drop i names = f # names'" by blast
  have "drop i names = names ! i # drop (Suc i) names" using assms(2) len by (simp add: Cons_nth_drop_Suc)
  with d have "names ! i = f" by simp
  with a f show ?thesis by blast
qed

lemma save_images_succeeds:
  "finite (dom fs) \<Longrightarrow> \<forall>fs p img. w fs p img \<Longrightarrow> \<exists>names fs'. save_images w imgs fs = Some (Inr names, fs')"
proof (induction imgs arbitrary: fs)
  case Nil
  then show ?case by simp
next
  case (Cons img imgs)
  from finite_disk_has_free_index[OF Cons.prems(1)] get_next_filename_returns
  obtain f where f: "get_next_filename fs = Some f" by blast
  have "finite (dom (fs(f \<mapsto> File img)))" using Cons.prems(1) by simp
  from Cons.IH[OF this Cons.prems(2)] obtain names fs' where
    rest: "save_images w imgs (fs(f \<mapsto> File img)) = Some (Inr names, fs')" by blast
  have ok: "w fs f img" using Cons.prems(2) by blast
  show ?case unfolding save_images_Cons_step[where w=w and img=img, OF f ok] rest by simp
qed

lemma save_images_append_fail:
  "save_images w xs fs = Some (Inr names, fs\<^sub>1) \<Longrightarrow> get_next_filename fs\<^sub>1 = Some f \<Longrightarrow> \<not> w fs\<^sub>1 f y
   \<Longrightarrow> save_images w (xs @ y # ys) fs = Some (Inl OSError, fs\<^sub>1)"
proof (induction xs arbitrary: fs names)
  case Nil
  then show ?case by (simp add: save_def)
next
  case (Cons x xs)
  from save_images_Cons_Inr[OF Cons.prems(1)] obtain g names' where g: "get_next_filename fs = Some g"
    and ok: "w fs g x"
    and rest: "save_images w xs (fs(g \<mapsto> File x)) = Some (Inr names', fs\<^sub>1)" by blast
  have tail: "save_images w (xs @ y # ys) (fs(g \<mapsto> File x)) = Some (Inl OSError, fs\<^sub>1)"
    using rest Cons.prems(2,3) by (rule Cons.IH)
  have "save_images w (x # (xs @ y # ys)) fs = Some (Inl OSError, fs\<^sub>1)"
    unfolding save_images_Cons_step[where w=w and img=x, OF g ok] tail by simp
  then show ?case by simp
qed

subsection \<open>The orchestrator\<close>

lemma alloc_1:
  "\<not> path_exists fs ''outputs/img_0001.png'' \<Longrightarrow> get_next_filename fs = Some ''outputs/img_0001.png''"
  using get_next_filename_lowest_free[of 1 fs] by (simp add: filename_of_1)

lemma alloc_2:
  assumes "path_exists fs ''outputs/img_0001.png''" and "\<not> path_exists fs ''outputs/img_0002.png''"
  shows "get_next_filename fs = Some ''outputs/img_0002.png''"
proof -
  have "\<forall>j. 1 \<le> j \<and> j < 2 \<longrightarrow> path_exists fs (filename_of j)"
  proof (intro allI impI)
    fix j :: nat assume "1 \<le> j \<and> j < 2"
    then have "j = 1" by simp
    with assms(1) show "path_exists fs (filename_of j)" by (simp add: filename_of_1)
  qed
  then have "get_next_filename fs = Some (filename_of 2)"
    using assms(2) by (intro get_next_filename_lowest_free) (auto simp: filename_of_2)
  then show ?thesis by (simp add: filename_of_2)
qed

lemma alloc_3:
  assumes "path_exists fs ''outputs/img_0001.png''" and "path_exists fs ''outputs/img_0002.png''"
    and "\<not> path_exists fs ''outputs/img_0003.png''"
  shows "get_next_filename fs = Some ''outputs/img_0003.png''"
proof -
  have "\<forall>j. 1 \<le> j \<and> j < 3 \<longrightarrow> path_exists fs (filename_of j)"
  proof (intro allI impI)
    fix j :: nat assume "1 \<le> j \<and> j < 3"
    then have "j = 1 \<or> j = 2" by auto
    with assms(1,2) show "path_exists fs (filename_of j)" by (auto simp: filename_of_1 filename_of_2)
  qed
  then have "get_next_filename fs = Some (filename_of 3)"
    using assms(3) by (intro get_next_filename_lowest_free) (auto simp: filename_of_3)
  then show ?thesis by (simp add: filename_of_3)
qed

lemma stub_stages:
  "prior_pipeline stub_pipelines (prior_call_of stub_pipelines example_request) (manual_seed (seed example_request))
     = Inr ([42, 42], Generator 42 1)"
  "decoder_pipeline stub_pipelines (decoder_call_of example_request [42, 42]) (Generator 42 1)
     = Inr ([[42, 1, 0], [42, 1, 1]], Generator 42 2)"
  by (simp_all add: stub_pipelines_def stub_prior_def stub_decoder_def example_request_def
      prior_call_of_def decoder_call_of_def manual_seed_def numeral_2_eq_2 upt_rec)

text \<open>
  The orchestrator does not look at the dimensions it is given: the prior stage receives
  the width and the height of the request as they are.
\<close>

lemma prior_call_of_dimensions:
  "p_width (prior_call_of pl r) = width r" "p_height (prior_call_of pl r) = height r"
  by (simp_all add: prior_call_of_def)

lemma generate_no_cuda: "generate w None r fs = Some (Inl NameError, fs)"
  by (simp add: generate_def)

lemma generate_prior_error:
  "prior_pipeline pl (prior_call_of pl r) (manual_seed (seed r)) = Inl e
   \<Longrightarrow> generate w (Some pl) r fs = Some (Inl e, fs)"
  by (simp add: generate_def)

lemma generate_decoder_error:
  "prior_pipeline pl (prior_call_of pl r) (manual_seed (seed r)) = Inr (emb, g\<^sub>1)
   \<Longrightarrow> decoder_pipeline pl (decoder_call_of r emb) g\<^sub>1 = Inl e
   \<Longrightarrow> generate w (Some pl) r fs = Some (Inl e, fs)"
  by (simp add: generate_def)

lemma generate_stages_ok:
  "prior_pipeline pl (prior_call_of pl r) (manual_seed (seed r)) = Inr (emb, g\<^sub>1)
   \<Longrightarrow> decoder_pipeline pl (decoder_call_of r emb) g\<^sub>1 = Inr (imgs, g\<^sub>2)
   \<Longrightarrow> generate w (Some pl) r fs =
        (case save_images w imgs fs of
           None \<Rightarrow> None
         | Some (Inl e, fs') \<Rightarrow> Some (Inl e, fs')
         | Some (Inr names, fs') \<Rightarrow> Some (Inr imgs, fs'))"
  by (simp add: generate_def)

lemma generate_Inr:
  assumes "generate w env r fs = Some (Inr out, fs')"
  shows "\<exists>pl emb g\<^sub>1 g\<^sub>2 names. env = Some pl
           \<and> prior_pipeline pl (prior_call_of pl r) (manual_seed (seed r)) = Inr (emb, g\<^sub>1)
           \<and> decoder_pipeline pl (decoder_call_of r emb) g\<^sub>1 = Inr (out, g\<^sub>2)
           \<and> save_images w out fs = Some (Inr names, fs')"
  using assms
  by (auto simp: generate_def split: option.splits sum.splits prod.splits)

lemma generate_frame:
  assumes "generate w env r fs = Some (res, fs')" and "path_exists fs q"
  shows "fs' q = fs q"
proof -
  have "fs' = fs \<or> (\<exists>imgs res'. save_images w imgs fs = Some (res', fs'))"
    using assms(1) by (auto simp: generate_def split: option.splits sum.splits prod.splits)
  then show ?thesis
  proof
    assume "fs' = fs" then show ?thesis by simp
  next
    assume "\<exists>imgs res'. save_images w imgs fs = Some (res', fs')"
    then obtain imgs res' where "save_images w imgs fs = Some (res', fs')" by blast
    from save_images_frame[OF this assms(2)] show ?thesis .
  qed
qed

text \<open>
  C1. Two calls of \<open>generate\<close> with the same request (prompt, negative prompt, seed, width,
  height, step counts, guidance scales, number of images) and the same pipelines yield the
  same images, whatever the disk and whatever else differs between the calls: the
  generator is built from the seed of the request alone, the prior stage receives it, and
  the decoder stage receives the same generator as the prior stage has left it. The files
  written by the two calls hold the same contents in the same order.
\<close>

theorem generate_deterministic:
  assumes "generate w\<^sub>1 env r fs\<^sub>1 = Some (Inr out\<^sub>1, fs\<^sub>1')"
    and "generate w\<^sub>2 env r fs\<^sub>2 = Some (Inr out\<^sub>2, fs\<^sub>2')"
  shows "out\<^sub>1 = out\<^sub>2
       \<and> (\<exists>pl emb g\<^sub>1 g\<^sub>2. env = Some pl
            \<and> prior_pipeline pl (prior_call_of pl r) (manual_seed (seed r)) = Inr (emb, g\<^sub>1)
            \<and> decoder_pipeline pl (decoder_call_of r emb) g\<^sub>1 = Inr (out\<^sub>1, g\<^sub>2))
       \<and> (\<exists>names\<^sub>1 names\<^sub>2. save_images w\<^sub>1 out\<^sub>1 fs\<^sub>1 = Some (Inr names\<^sub>1, fs\<^sub>1')
            \<and> save_images w\<^sub>2 out\<^sub>2 fs\<^sub>2 = Some (Inr names\<^sub>2, fs\<^sub>2')
            \<and> map fs\<^sub>1' names\<^sub>1 = map fs\<^sub>2' names\<^sub>2)"
proof -
  from generate_Inr[OF assms(1)] obtain pl emb g\<^sub>1 g\<^sub>2 names\<^sub>1 where
    env: "env = Some pl"
    and p1: "prior_pipeline pl (prior_call_of pl r) (manual_seed (seed r)) = Inr (emb, g\<^sub>1)"
    and d1: "decoder_pipeline pl (decoder_call_of r emb) g\<^sub>1 = Inr (out\<^sub>1, g\<^sub>2)"
    and s1: "save_images w\<^sub>1 out\<^sub>1 fs\<^sub>1 = Some (Inr names\<^sub>1, fs\<^sub>1')" by blast
  from generate_Inr[OF assms(2)] obtain pl' emb' g\<^sub>1' g\<^sub>2' names\<^sub>2 where
    env': "env = Some pl'"
    and p2: "prior_pipeline pl' (prior_call_of pl' r) (manual_seed (seed r)) = Inr (emb', g\<^sub>1')"
    and d2: "decoder_pipeline pl' (decoder_call_of r emb') g\<^sub>1' = Inr (out\<^sub>2, g\<^sub>2')"
    and s2: "save_images w\<^sub>2 out\<^sub>2 fs\<^sub>2 = Some (Inr names\<^sub>2, fs\<^sub>2')" by blast
  from env env' have "pl' = pl" by simp
  with p1 p2 have "emb' = emb" "g\<^sub>1' = g\<^sub>1" by simp_all
  with d1 d2 \<open>pl' = pl\<close> have eq: "out\<^sub>1 = out\<^sub>2" by simp
  have stored: "map fs' names = map (\<lambda>img. Some (File img)) out"
    if "save_images w out fs = Some (Inr names, fs')" for w out fs names fs'
  proof (rule nth_equalityI)
    show "length (map fs' names) = length (map (\<lambda>img. Some (File img)) out)"
      using save_images_length[OF that] by simp
  next
    fix i assume "i < length (map fs' names)"
    then have i: "i < length out" "i < length names" using save_images_length[OF that] by simp_all
    from save_images_stored[OF that i(1)] i
    show "map fs' names ! i = map (\<lambda>img. Some (File img)) out ! i" by simp
  qed
  have "map fs\<^sub>1' names\<^sub>1 = map fs\<^sub>2' names\<^sub>2"
    using stored[OF s1] stored[OF s2] eq by simp
  with eq env p1 d1 s1 s2 show ?thesis by blast
qed

theorem generate_deterministic_witness:
  "generate (\<lambda>d p i. True) (Some stub_pipelines) example_request Map.empty
     = Some (Inr [[42, 1, 0], [42, 1, 1]],
             [''outputs/img_0001.png'' \<mapsto> File [42, 1, 0], ''outputs/img_0002.png'' \<mapsto> File [42, 1, 1]])
   \<and> generate (\<lambda>d p i. True) (Some stub_pipelines) example_request [''outputs/img_0001.png'' \<mapsto> Dir]
     = Some (Inr [[42, 1, 0], [42, 1, 1]],
             [''outputs/img_0001.png'' \<mapsto> Dir, ''outputs/img_0002.png'' \<mapsto> File [42, 1, 0],
              ''outputs/img_0003.png'' \<mapsto> File [42, 1, 1]])"
proof -
  obtain out\<^sub>1 fs\<^sub>1' where h1:
    "generate (\<lambda>d p i. True) (Some stub_pipelines) example_request Map.empty = Some (Inr out\<^sub>1, fs\<^sub>1')"
    and v1: "out\<^sub>1 = [[42, 1, 0], [42, 1, 1]]"
      "fs\<^sub>1' = [''outputs/img_0001.png'' \<mapsto> File [42, 1, 0], ''outputs/img_0002.png'' \<mapsto> File [42, 1, 1]]"
    by (simp add: generate_stages_ok[OF stub_stages] alloc_1 alloc_2 save_def path_exists_def)
  obtain out\<^sub>2 fs\<^sub>2' where h2:
    "generate (\<lambda>d p i. True) (Some stub_pipelines) example_request [''outputs/img_0001.png'' \<mapsto> Dir]
       = Some (Inr out\<^sub>2, fs\<^sub>2')"
    and v2: "fs\<^sub>2' = [''outputs/img_0001.png'' \<mapsto> Dir, ''outputs/img_0002.png'' \<mapsto> File [42, 1, 0],
              ''outputs/img_0003.png'' \<mapsto> File [42, 1, 1]]"
    by (simp add: generate_stages_ok[OF stub_stages] alloc_2 alloc_3 save_def path_exists_def)
  from generate_deterministic[OF h1 h2] have "out\<^sub>1 = out\<^sub>2" by blast
  with h1 h2 v1 v2 show ?thesis by simp
qed

text \<open>
  C7. A call of \<open>generate\<close> whose decoder stage produces \<open>N\<close> images yields these \<open>N\<close> images
  and has written \<open>N\<close> files under \<open>N\<close> pairwise distinct, previously unused filenames: the
  \<open>i\<close>-th image is stored under the \<open>i\<close>-th filename, which is the one the allocator returns
  on the disk as the first \<open>i\<close> saves have left it (batch order). On a disk with finitely
  many entries that accepts every write, the call does return the batch once both stages
  have returned theirs.
\<close>

theorem generate_saves_every_image:
  "(generate w env r fs = Some (Inr out, fs') \<longrightarrow>
      (\<exists>names. save_images w out fs = Some (Inr names, fs')
         \<and> length names = length out \<and> distinct names
         \<and> (\<forall>i<length out. fs' (names ! i) = Some (File (out ! i))
               \<and> \<not> path_exists fs (names ! i)
               \<and> (\<exists>fs\<^sub>i. save_images w (take i out) fs = Some (Inr (take i names), fs\<^sub>i)
                      \<and> get_next_filename fs\<^sub>i = Some (names ! i)))))
   \<and> (finite (dom fs) \<and> (\<forall>d p img. w d p img)
        \<and> prior_pipeline pl (prior_call_of pl r) (manual_seed (seed r)) = Inr (emb, g\<^sub>1)
        \<and> decoder_pipeline pl (decoder_call_of r emb) g\<^sub>1 = Inr (imgs, g\<^sub>2)
      \<longrightarrow> (\<exists>fs'. generate w (Some pl) r fs = Some (Inr imgs, fs')))"
proof (intro conjI impI)
  assume "generate w env r fs = Some (Inr out, fs')"
  from generate_Inr[OF this] obtain names where
    s: "save_images w out fs = Some (Inr names, fs')" by blast
  have len: "length names = length out" using s by (rule save_images_length)
  have "\<forall>i<length out. fs' (names ! i) = Some (File (out ! i))
               \<and> \<not> path_exists fs (names ! i)
               \<and> (\<exists>fs\<^sub>i. save_images w (take i out) fs = Some (Inr (take i names), fs\<^sub>i)
                      \<and> get_next_filename fs\<^sub>i = Some (names ! i))"
  proof (intro allI impI conjI)
    fix i assume i: "i < length out"
    show "fs' (names ! i) = Some (File (out ! i))" using s i by (rule save_images_stored)
    have "names ! i \<in> set names" using i len by simp
    with s show "\<not> path_exists fs (names ! i)" by (rule save_images_fresh)
    show "\<exists>fs\<^sub>i. save_images w (take i out) fs = Some (Inr (take i names), fs\<^sub>i)
                      \<and> get_next_filename fs\<^sub>i = Some (names ! i)"
      using s i by (rule save_images_allocated)
  qed
  with s len save_images_distinct[OF s]
  show "\<exists>names. save_images w out fs = Some (Inr names, fs')
         \<and> length names = length out \<and> distinct names
         \<and> (\<forall>i<length out. fs' (names ! i) = Some (File (out ! i))
               \<and> \<not> path_exists fs (names ! i)
               \<and> (\<exists>fs\<^sub>i. save_images w (take i out) fs = Some (Inr (take i names), fs\<^sub>i)
                      \<and> get_next_filename fs\<^sub>i = Some (names ! i)))"
    by blast
next
  assume a: "finite (dom fs) \<and> (\<forall>d p img. w d p img)
        \<and> prior_pipeline pl (prior_call_of pl r) (manual_seed (seed r)) = Inr (emb, g\<^sub>1)
        \<and> decoder_pipeline pl (decoder_call_of r emb) g\<^sub>1 = Inr (imgs, g\<^sub>2)"
  then have "finite (dom fs)" "\<forall>d p img. w d p img" by simp_all
  from save_images_succeeds[OF this] obtain names fs' where
    s: "save_images w imgs fs = Some (Inr names, fs')" by blast
  from a have p: "prior_pipeline pl (prior_call_of pl r) (manual_seed (seed r)) = Inr (emb, g\<^sub>1)"
    and d: "decoder_pipeline pl (decoder_call_of r emb) g\<^sub>1 = Inr (imgs, g\<^sub>2)" by simp_all
  have "generate w (Some pl) r fs = Some (Inr imgs, fs')"
    unfolding generate_stages_ok[OF p d] s by simp
  then show "\<exists>fs'. generate w (Some pl) r fs = Some (Inr imgs, fs')" by blast
qed

theorem generate_saves_every_image_witness:
  "finite (dom (Map.empty :: disk))
   \<and> generate (\<lambda>d p i. True) (Some stub_pipelines) example_request Map.empty
       = Some (Inr [[42, 1, 0], [42, 1, 1]],
           [''outputs/img_0001.png'' \<mapsto> File [42, 1, 0], ''outputs/img_0002.png'' \<mapsto> File [42, 1, 1]])
   \<and> (\<exists>names. save_images (\<lambda>d p i. True) [[42, 1, 0], [42, 1, 1]] Map.empty
         = Some (Inr names,
             [''outputs/img_0001.png'' \<mapsto> File [42, 1, 0], ''outputs/img_0002.png'' \<mapsto> File [42, 1, 1]])
       \<and> length names = length [[42, 1, 0], [42, 1, 1::nat]] \<and> distinct names)"
proof -
  let ?w = "\<lambda>(d::disk) (p::string) (i::image). True"
  let ?out = "[[42, 1, 0], [42, 1, 1::nat]]"
  let ?fs' = "[''outputs/img_0001.png'' \<mapsto> File [42, 1, 0], ''outputs/img_0002.png'' \<mapsto> File [42, 1, 1::nat]]"
  have fin: "finite (dom (Map.empty :: disk))" by simp
  have ok: "\<forall>d p img. ?w d p img" by simp
  have "\<exists>fs'. generate ?w (Some stub_pipelines) example_request Map.empty = Some (Inr ?out, fs')"
    using generate_saves_every_image
      [where w = ?w and fs = Map.empty and pl = stub_pipelines and r = example_request
         and emb = "[42, 42]" and g\<^sub>1 = "Generator 42 1" and imgs = ?out
         and g\<^sub>2 = "Generator 42 2", THEN conjunct2]
      fin ok stub_stages by blast
  have h: "generate ?w (Some stub_pipelines) example_request Map.empty = Some (Inr ?out, ?fs')"
    by (simp add: generate_stages_ok[OF stub_stages] alloc_1 alloc_2 save_def path_exists_def)
  have "\<exists>names. save_images ?w ?out Map.empty = Some (Inr names, ?fs')
       \<and> length names = length ?out \<and> distinct names"
    using generate_saves_every_image
      [where w = ?w and env = "Some stub_pipelines" and r = example_request and fs = Map.empty
         and out = ?out and fs' = ?fs', THEN conjunct1, THEN mp, OF h]
    by blast
  with fin h show ?thesis by blast
qed

text \<open>
  C8. The path \<open>get_next_filename\<close> returns is not on the disk when it is returned, so
  writing to it changes no path that was there; and whatever a call of \<open>generate\<close> returns
  or raises, every path that was on the disk before the call is there after it with the
  content it had: nothing is overwritten, changed or deleted.
\<close>
theorem allocated_path_is_new_and_files_are_kept:
  "(get_next_filename fs = Some p \<longrightarrow>
      \<not> path_exists fs p \<and> (\<forall>q. path_exists fs q \<longrightarrow> (fs(p \<mapsto> n)) q = fs q))
   \<and> (generate w env r fs = Some (res, fs') \<longrightarrow> (\<forall>q. path_exists fs q \<longrightarrow> fs' q = fs q))"
proof (intro conjI impI allI)
  assume "get_next_filename fs = Some p"
  from get_next_filename_Some[OF this] show free: "\<not> path_exists fs p" by blast
  fix q assume "path_exists fs q"
  with free have "q \<noteq> p" by auto
  then show "(fs(p \<mapsto> n)) q = fs q" by simp
next
  fix q assume "generate w env r fs = Some (res, fs')" and "path_exists fs q"
  then show "fs' q = fs q" by (rule generate_frame)
qed

theorem allocated_path_is_new_and_files_are_kept_witness:
  "get_next_filename [''outputs/img_0001.png'' \<mapsto> File [9]] = Some ''outputs/img_0002.png''
   \<and> \<not> path_exists [''outputs/img_0001.png'' \<mapsto> File [9]] ''outputs/img_0002.png''
   \<and> path_exists [''outputs/img_0001.png'' \<mapsto> File [9]] ''outputs/img_0001.png''
   \<and> generate (\<lambda>d p i. True) (Some stub_pipelines) example_request [''outputs/img_0001.png'' \<mapsto> File [9]]
       = Some (Inr [[42, 1, 0], [42, 1, 1]],
               [''outputs/img_0001.png'' \<mapsto> File [9], ''outputs/img_0002.png'' \<mapsto> File [42, 1, 0],
                ''outputs/img_0003.png'' \<mapsto> File [42, 1, 1]])
   \<and> [''outputs/img_0001.png'' \<mapsto> File [9], ''outputs/img_0002.png'' \<mapsto> File [42, 1, 0],
                ''outputs/img_0003.png'' \<mapsto> File [42, 1, 1]] ''outputs/img_0001.png''
       = Some (File [9])"
proof -
  let ?fs = "[''outputs/img_0001.png'' \<mapsto> File [9::nat]]"
  let ?fs' = "[''outputs/img_0001.png'' \<mapsto> File [9], ''outputs/img_0002.png'' \<mapsto> File [42, 1, 0],
                ''outputs/img_0003.png'' \<mapsto> File [42, 1, 1::nat]]"
  have a: "get_next_filename ?fs = Some ''outputs/img_0002.png''"
    by (simp add: alloc_2 path_exists_def)
  have e: "path_exists ?fs ''outputs/img_0001.png''" by (simp add: path_exists_def)
  have g: "generate (\<lambda>d p i. True) (Some stub_pipelines) example_request ?fs
       = Some (Inr [[42, 1, 0], [42, 1, 1]], ?fs')"
    by (simp add: generate_stages_ok[OF stub_stages] alloc_2 alloc_3 save_def path_exists_def)
  note t = allocated_path_is_new_and_files_are_kept
    [where fs = ?fs and p = "''outputs/img_0002.png''" and n = Dir and w = "\<lambda>d p i. True"
       and env = "Some stub_pipelines" and r = example_request
       and res = "Inr [[42, 1, 0], [42, 1, 1]]" and fs' = ?fs']
  from t a have "\<not> path_exists ?fs ''outputs/img_0002.png''" by blast
  moreover from t g e have "?fs' ''outputs/img_0001.png'' = ?fs ''outputs/img_0001.png''" by blast
  ultimately show ?thesis using a e g by simp
qed

text \<open>
  C9. An exception of the prior stage, of the decoder stage or of a save is the result of
  the call of \<open>generate\<close>: nothing catches it and nothing is tried again. When the stage
  fails the disk is as it was; when the save of an image fails, the disk is as the saves
  before it have left it, and the images saved by them are still there.
\<close>
theorem generate_propagates_errors:
  "(prior_pipeline pl (prior_call_of pl r) (manual_seed (seed r)) = Inl e
      \<longrightarrow> generate w (Some pl) r fs = Some (Inl e, fs))
   \<and> (prior_pipeline pl (prior_call_of pl r) (manual_seed (seed r)) = Inr (emb, g\<^sub>1)
        \<and> decoder_pipeline pl (decoder_call_of r emb) g\<^sub>1 = Inl e
      \<longrightarrow> generate w (Some pl) r fs = Some (Inl e, fs))
   \<and> (prior_pipeline pl (prior_call_of pl r) (manual_seed (seed r)) = Inr (emb, g\<^sub>1)
        \<and> decoder_pipeline pl (decoder_call_of r emb) g\<^sub>1 = Inr (xs @ y # ys, g\<^sub>2)
        \<and> save_images w xs fs = Some (Inr names, fs\<^sub>1)
        \<and> get_next_filename fs\<^sub>1 = Some f \<and> \<not> w fs\<^sub>1 f y
      \<longrightarrow> generate w (Some pl) r fs = Some (Inl OSError, fs\<^sub>1)
          \<and> (\<forall>i<length xs. fs\<^sub>1 (names ! i) = Some (File (xs ! i))))"
proof (intro conjI impI)
  assume "prior_pipeline pl (prior_call_of pl r) (manual_seed (seed r)) = Inl e"
  then show "generate w (Some pl) r fs = Some (Inl e, fs)" by (rule generate_prior_error)
next
  assume "prior_pipeline pl (prior_call_of pl r) (manual_seed (seed r)) = Inr (emb, g\<^sub>1)
        \<and> decoder_pipeline pl (decoder_call_of r emb) g\<^sub>1 = Inl e"
  then show "generate w (Some pl) r fs = Some (Inl e, fs)"
    using generate_decoder_error by blast
next
  assume a: "prior_pipeline pl (prior_call_of pl r) (manual_seed (seed r)) = Inr (emb, g\<^sub>1)
        \<and> decoder_pipeline pl (decoder_call_of r emb) g\<^sub>1 = Inr (xs @ y # ys, g\<^sub>2)
        \<and> save_images w xs fs = Some (Inr names, fs\<^sub>1)
        \<and> get_next_filename fs\<^sub>1 = Some f \<and> \<not> w fs\<^sub>1 f y"
  then have p: "prior_pipeline pl (prior_call_of pl r) (manual_seed (seed r)) = Inr (emb, g\<^sub>1)"
    and d: "decoder_pipeline pl (decoder_call_of r emb) g\<^sub>1 = Inr (xs @ y # ys, g\<^sub>2)"
    and s: "save_images w xs fs = Some (Inr names, fs\<^sub>1)"
    and f: "get_next_filename fs\<^sub>1 = Some f" and nw: "\<not> w fs\<^sub>1 f y" by simp_all
  have fail: "save_images w (xs @ y # ys) fs = Some (Inl OSError, fs\<^sub>1)"
    using s f nw by (rule save_images_append_fail)
  show "generate w (Some pl) r fs = Some (Inl OSError, fs\<^sub>1)"
    unfolding generate_stages_ok[OF p d] fail by simp
next
  assume a: "prior_pipeline pl (prior_call_of pl r) (manual_seed (seed r)) = Inr (emb, g\<^sub>1)
        \<and> decoder_pipeline pl (decoder_call_of r emb) g\<^sub>1 = Inr (xs @ y # ys, g\<^sub>2)
        \<and> save_images w xs fs = Some (Inr names, fs\<^sub>1)
        \<and> get_next_filename fs\<^sub>1 = Some f \<and> \<not> w fs\<^sub>1 f y"
  then have s: "save_images w xs fs = Some (Inr names, fs\<^sub>1)" by simp
  show "\<forall>i<length xs. fs\<^sub>1 (names ! i) = Some (File (xs ! i))"
    using save_images_stored[OF s] by blast
qed

theorem generate_propagates_errors_witness:
  "generate (\<lambda>d p i. True) (Some (stub_pipelines\<lparr>prior_pipeline := failing_stage\<rparr>)) example_request
      [''outputs/img_0001.png'' \<mapsto> File [9]]
     = Some (Inl (PipelineError ''CUDA out of memory''), [''outputs/img_0001.png'' \<mapsto> File [9]])
   \<and> generate (\<lambda>d p i. True) (Some (stub_pipelines\<lparr>decoder_pipeline := failing_stage\<rparr>)) example_request
      [''outputs/img_0001.png'' \<mapsto> File [9]]
     = Some (Inl (PipelineError ''CUDA out of memory''), [''outputs/img_0001.png'' \<mapsto> File [9]])
   \<and> generate second_write_fails (Some stub_pipelines) example_request Map.empty
     = Some (Inl OSError, [''outputs/img_0001.png'' \<mapsto> File [42, 1, 0]])"
proof -
  let ?w = "\<lambda>(d::disk) (p::string) (i::image). True"
  let ?fs = "[''outputs/img_0001.png'' \<mapsto> File [9::nat]]"
  let ?pl\<^sub>1 = "stub_pipelines\<lparr>prior_pipeline := failing_stage\<rparr>"
  let ?pl\<^sub>2 = "stub_pipelines\<lparr>decoder_pipeline := failing_stage\<rparr>"
  let ?fs\<^sub>1 = "[''outputs/img_0001.png'' \<mapsto> File [42, 1, 0::nat]]"
  have p1: "prior_pipeline ?pl\<^sub>1 (prior_call_of ?pl\<^sub>1 example_request) (manual_seed (seed example_request))
      = Inl (PipelineError ''CUDA out of memory'')"
    by (simp add: failing_stage_def)
  have p2: "prior_pipeline ?pl\<^sub>2 (prior_call_of ?pl\<^sub>2 example_request) (manual_seed (seed example_request))
      = Inr ([42, 42], Generator 42 1)"
    using stub_stages(1) by (simp add: stub_pipelines_def prior_call_of_def)
  have d2: "decoder_pipeline ?pl\<^sub>2 (decoder_call_of example_request [42, 42]) (Generator 42 1)
      = Inl (PipelineError ''CUDA out of memory'')"
    by (simp add: failing_stage_def)
  have d3: "decoder_pipeline stub_pipelines (decoder_call_of example_request [42, 42]) (Generator 42 1)
      = Inr ([[42, 1, 0]] @ [42, 1, 1] # [], Generator 42 2)"
    using stub_stages(2) by simp
  have s3: "save_images second_write_fails [[42, 1, 0]] Map.empty = Some (Inr [''outputs/img_0001.png''], ?fs\<^sub>1)"
    by (simp add: alloc_1 save_def path_exists_def second_write_fails_def)
  have f3: "get_next_filename ?fs\<^sub>1 = Some ''outputs/img_0002.png''"
    by (simp add: alloc_2 path_exists_def)
  have nw: "\<not> second_write_fails ?fs\<^sub>1 ''outputs/img_0002.png'' [42, 1, 1]"
    by (simp add: second_write_fails_def)
  have a: "generate ?w (Some ?pl\<^sub>1) example_request ?fs = Some (Inl (PipelineError ''CUDA out of memory''), ?fs)"
    using generate_propagates_errors
      [where pl = ?pl\<^sub>1 and r = example_request and e = "PipelineError ''CUDA out of memory''"
         and w = ?w and fs = ?fs, THEN conjunct1] p1 by blast
  have b: "generate ?w (Some ?pl\<^sub>2) example_request ?fs = Some (Inl (PipelineError ''CUDA out of memory''), ?fs)"
    using generate_propagates_errors
      [where pl = ?pl\<^sub>2 and r = example_request and e = "PipelineError ''CUDA out of memory''"
         and emb = "[42, 42]" and g\<^sub>1 = "Generator 42 1"
         and w = ?w and fs = ?fs, THEN conjunct2, THEN conjunct1] p2 d2 by blast
  have c: "generate second_write_fails (Some stub_pipelines) example_request Map.empty = Some (Inl OSError, ?fs\<^sub>1)"
    using generate_propagates_errors
      [where pl = stub_pipelines and r = example_request
         and emb = "[42, 42]" and g\<^sub>1 = "Generator 42 1" and xs = "[[42, 1, 0]]" and y = "[42, 1, 1]"
         and ys = "[]" and g\<^sub>2 = "Generator 42 2" and names = "[''outputs/img_0001.png'']"
         and fs\<^sub>1 = ?fs\<^sub>1 and f = "''outputs/img_0002.png''"
         and w = second_write_fails and fs = Map.empty, THEN conjunct2, THEN conjunct2]
      stub_stages(1) d3 s3 f3 nw by blast
  from a b c show ?thesis by blast
qed

end
